theory Spec2Isabelle
  imports Main
begin

section \<open>Python text and values\<close>

text \<open>
  A Python \<open>str\<close> is a sequence of Unicode code points; a character is its code point
  (\<open>ord\<close>), so that escapes above U+00FF and lone surrogates are ordinary values.
  \<open>ords\<close> writes an ASCII text as such a sequence; \<open>CHR 0x22\<close> is the double quote and
  \<open>CHR 0x5C\<close> the backslash.
\<close>

type_synonym pychar = int
type_synonym pystr = "int list"

abbreviation ch :: "char \<Rightarrow> pychar" where
  "ch c \<equiv> of_char c"

definition ords :: "string \<Rightarrow> pystr" where
  "ords s = map of_char s"

text \<open>
  The values \<open>json.loads\<close> hands back for a scalar document, which are also what the
  engine keeps on its stack (\<open>list[str | int]\<close>) and in \<open>Value.value\<close>
  (\<open>str | int | float | bool | None\<close>). A float is carried as the text given to
  \<open>float()\<close>.
\<close>

datatype pyval = PyStr pystr | PyInt int | PyFloat pystr | PyBool bool | PyNone

datatype runtime_error =
    Stack_is_empty
  | Bracket_mismatch
  | Unrecognized_character
  | Invalid_array_value_start
  | Cannot_recognize_character
  | Invalid_parser_state

datatype error =
    RuntimeError runtime_error
  | AssertionError
  | IndexError
  | KeyError
  | JSONDecodeError
  | UnicodeDecodeError
  | LookupError

datatype outcome = Returned | Raised error

subsection \<open>Library functions the source calls\<close>

definition is_digit :: "pychar \<Rightarrow> bool" where
  "is_digit c \<longleftrightarrow> 48 \<le> c \<and> c \<le> 57"

definition is_hex :: "pychar \<Rightarrow> bool" where
  "is_hex c \<longleftrightarrow> (48 \<le> c \<and> c \<le> 57) \<or> (97 \<le> c \<and> c \<le> 102) \<or> (65 \<le> c \<and> c \<le> 70)"

definition hex_digit_val :: "pychar \<Rightarrow> int" where
  "hex_digit_val c = (if c \<le> 57 then c - 48 else if c \<le> 70 then c - 55 else c - 87)"

definition hexval :: "pystr \<Rightarrow> int" where
  "hexval s = foldl (\<lambda>acc c. acc * 16 + hex_digit_val c) 0 s"

definition decval :: "pystr \<Rightarrow> int" where
  "decval s = foldl (\<lambda>acc c. acc * 10 + (c - 48)) 0 s"

text \<open>\<open>str(i)\<close> for an integer.\<close>

function digits :: "nat \<Rightarrow> pystr" where
  "digits n = (if n < 10 then [48 + int n] else digits (n div 10) @ [48 + int (n mod 10)])"
  by pat_completeness auto
termination
  by (relation "measure id") auto

declare digits.simps [simp del]

definition str_int :: "int \<Rightarrow> pystr" where
  "str_int i = (if i < 0 then ch CHR ''-'' # digits (nat (- i)) else digits (nat i))"

text \<open>\<open>sep.join(parts)\<close>.\<close>

fun join :: "pystr \<Rightarrow> pystr list \<Rightarrow> pystr" where
  "join sep [] = []"
| "join sep [x] = x"
| "join sep (x # y # ys) = x @ sep @ join sep (y # ys)"

text \<open>
  \<open>ESCAPED = re.compile(r'^\\([ntr\\"]|x[a-fA-F0-9]{2}|u[a-fA-F0-9]{4}|U[a-fA-F0-9]{8})')\<close>:
  \<open>ESCAPED_match s\<close> is the length of \<open>ESCAPED.match(s).group(0)\<close>, or \<open>None\<close> when
  the pattern does not match at the start of \<open>s\<close>.
\<close>

definition hex_run :: "nat \<Rightarrow> pystr \<Rightarrow> bool" where
  "hex_run n s \<longleftrightarrow> n \<le> length s \<and> list_all is_hex (take n s)"

fun ESCAPED_match :: "pystr \<Rightarrow> nat option" where
  "ESCAPED_match (b # c # rest) =
     (if b \<noteq> ch CHR 0x5C then None
      else if c \<in> set [ch CHR ''n'', ch CHR ''t'', ch CHR ''r'', ch CHR 0x5C, ch CHR 0x22] then Some 2
      else if c = ch CHR ''x'' \<and> hex_run 2 rest then Some 4
      else if c = ch CHR ''u'' \<and> hex_run 4 rest then Some 6
      else if c = ch CHR ''U'' \<and> hex_run 8 rest then Some 10
      else None)"
| "ESCAPED_match _ = None"

text \<open>
  \<open>codecs.decode(span, "unicode_escape")\<close> on a span matched by \<open>ESCAPED\<close>: the one
  character the escape denotes. \<open>chr\<close> of a value above U+10FFFF does not exist and the
  codec raises \<open>UnicodeDecodeError\<close> (illegal Unicode character). The source calls the
  codec on matched spans only; any other text is answered \<open>LookupError\<close> here, which
  \<open>unicode_escape_matched\<close> below shows is never the case for a matched span.
\<close>

definition unicode_escape :: "pystr \<Rightarrow> error + pychar" where
  "unicode_escape span =
     (case span of
        b # c # rest \<Rightarrow>
          if b \<noteq> ch CHR 0x5C then Inl LookupError
          else if rest = [] \<and> c = ch CHR ''n'' then Inr 10
          else if rest = [] \<and> c = ch CHR ''t'' then Inr 9
          else if rest = [] \<and> c = ch CHR ''r'' then Inr 13
          else if rest = [] \<and> c = ch CHR 0x5C then Inr (ch CHR 0x5C)
          else if rest = [] \<and> c = ch CHR 0x22 then Inr (ch CHR 0x22)
          else if (c = ch CHR ''x'' \<and> length rest = 2 \<or> c = ch CHR ''u'' \<and> length rest = 4
                   \<or> c = ch CHR ''U'' \<and> length rest = 8) \<and> list_all is_hex rest
          then (if hexval rest \<le> 0x10FFFF then Inr (hexval rest) else Inl UnicodeDecodeError)
          else Inl LookupError
      | _ \<Rightarrow> Inl LookupError)"

text \<open>
  \<open>json.loads\<close> on a scalar document, after the default (C) scanner: optional
  whitespace, one value, optional whitespace, end of text. Strings are scanned strictly
  (a raw control character is an error), the escapes are those of the \<open>BACKSLASH\<close>
  table and \<open>\uXXXX\<close>, and a high surrogate followed by a \<open>\u\<close> low surrogate is joined
  into one code point.
\<close>

definition is_json_ws :: "pychar \<Rightarrow> bool" where
  "is_json_ws c \<longleftrightarrow> c \<in> set [32, 9, 10, 13]"

definition BACKSLASH :: "pychar \<rightharpoonup> pychar" where
  "BACKSLASH = [ch CHR 0x22 \<mapsto> ch CHR 0x22, ch CHR 0x5C \<mapsto> ch CHR 0x5C,
                ch CHR ''/'' \<mapsto> ch CHR ''/'', ch CHR ''b'' \<mapsto> 8, ch CHR ''f'' \<mapsto> 12,
                ch CHR ''n'' \<mapsto> 10, ch CHR ''r'' \<mapsto> 13, ch CHR ''t'' \<mapsto> 9]"

definition decode_uXXXX :: "pystr \<Rightarrow> int option" where
  "decode_uXXXX s = (if hex_run 4 s then Some (hexval (take 4 s)) else None)"

definition cons_char :: "pychar \<Rightarrow> error + pystr \<times> pystr \<Rightarrow> error + pystr \<times> pystr" where
  "cons_char c r = (case r of Inl e \<Rightarrow> Inl e | Inr (chunks, rest) \<Rightarrow> Inr (c # chunks, rest))"

text \<open>\<open>scanstring s\<close>: \<open>s\<close> is the text after the opening quote; the result is the
  decoded string and the text after the closing quote.\<close>

function scanstring :: "pystr \<Rightarrow> error + pystr \<times> pystr" where
  "scanstring [] = Inl JSONDecodeError"
| "scanstring (c # s) =
     (if c = ch CHR 0x22 then Inr ([], s)
      else if c = ch CHR 0x5C then
        (case s of
           [] \<Rightarrow> Inl JSONDecodeError
         | esc # s' \<Rightarrow>
             if esc \<noteq> ch CHR ''u'' then
               (case BACKSLASH esc of
                  None \<Rightarrow> Inl JSONDecodeError
                | Some char \<Rightarrow> cons_char char (scanstring s'))
             else
               (case decode_uXXXX s' of
                  None \<Rightarrow> Inl JSONDecodeError
                | Some uni \<Rightarrow>
                    if 0xd800 \<le> uni \<and> uni \<le> 0xdbff
                       \<and> take 2 (drop 4 s') = [ch CHR 0x5C, ch CHR ''u'']
                    then
                      (case decode_uXXXX (drop 6 s') of
                         None \<Rightarrow> Inl JSONDecodeError
                       | Some uni2 \<Rightarrow>
                           if 0xdc00 \<le> uni2 \<and> uni2 \<le> 0xdfff
                           then cons_char (0x10000 + ((uni - 0xd800) * 1024 + (uni2 - 0xdc00)))
                                  (scanstring (drop 10 s'))
                           else cons_char uni (scanstring (drop 4 s')))
                    else cons_char uni (scanstring (drop 4 s'))))
      else if c < 0x20 then Inl JSONDecodeError
      else cons_char c (scanstring s))"
  by pat_completeness auto
termination
  by (relation "measure length") auto

text \<open>\<open>NUMBER_RE\<close>: \<open>(-?(?:0|[1-9][0-9]*))(\.[0-9]+)?([eE][-+]?[0-9]+)?\<close>, giving the
  three groups and the text after the match.\<close>

definition match_exp :: "pystr \<Rightarrow> pystr \<times> pystr" where
  "match_exp r =
     (case r of
        [] \<Rightarrow> ([], r)
      | e # r1 \<Rightarrow>
          if e \<noteq> ch CHR ''e'' \<and> e \<noteq> ch CHR ''E'' then ([], r)
          else
            let sg = (case r1 of [] \<Rightarrow> [] | x # _ \<Rightarrow> if x = ch CHR ''+'' \<or> x = ch CHR ''-'' then [x] else []);
                r2 = drop (length sg) r1;
                ds = takeWhile is_digit r2
            in if ds = [] then ([], r) else (e # sg @ ds, dropWhile is_digit r2))"

definition match_frac :: "pystr \<Rightarrow> pystr \<times> pystr" where
  "match_frac r =
     (case r of
        [] \<Rightarrow> ([], r)
      | d # r1 \<Rightarrow>
          if d = ch CHR ''.'' \<and> takeWhile is_digit r1 \<noteq> []
          then (d # takeWhile is_digit r1, dropWhile is_digit r1)
          else ([], r))"

definition match_integer :: "pystr \<Rightarrow> (pystr \<times> pystr) option" where
  "match_integer s =
     (let sg = (case s of [] \<Rightarrow> [] | x # _ \<Rightarrow> if x = ch CHR ''-'' then [x] else []);
          s1 = drop (length sg) s
      in case s1 of
           [] \<Rightarrow> None
         | d # r \<Rightarrow>
             if d = ch CHR ''0'' then Some (sg @ [d], r)
             else if is_digit d then Some (sg @ d # takeWhile is_digit r, dropWhile is_digit r)
             else None)"

definition py_int :: "pystr \<Rightarrow> int" where
  "py_int s = (case s of [] \<Rightarrow> 0 | x # r \<Rightarrow> if x = ch CHR ''-'' then - decval r else decval s)"

definition match_number :: "pystr \<Rightarrow> (pyval \<times> pystr) option" where
  "match_number s =
     (case match_integer s of
        None \<Rightarrow> None
      | Some (integer, r) \<Rightarrow>
          let (frac, r1) = match_frac r;
              (exp, r2) = match_exp r1
          in if frac = [] \<and> exp = [] then Some (PyInt (py_int integer), r2)
             else Some (PyFloat (integer @ frac @ exp), r2))"

text \<open>
  \<open>scan_once\<close>. A document that opens an object or an array is not a scalar; the engine
  never builds one (a payload starts with the double quote or with an atomic character:
  \<open>reachable_payload_ok\<close>), and this model, whose values are the scalars of
  \<open>Value.value\<close>, answers it with \<open>LookupError\<close>, an error that \<open>json.loads\<close> itself
  never raises and that no parser made by feeding a new one ever raises
  (\<open>model_errors_unreachable\<close>). The limit of \<open>int()\<close> on the number of digits is not
  modelled.
\<close>

definition scan_once :: "pystr \<Rightarrow> error + pyval \<times> pystr" where
  "scan_once s =
     (case s of
        [] \<Rightarrow> Inl JSONDecodeError
      | nextchar # r \<Rightarrow>
          if nextchar = ch CHR 0x22 then
            (case scanstring r of Inl e \<Rightarrow> Inl e | Inr (v, rest) \<Rightarrow> Inr (PyStr v, rest))
          else if nextchar = ch CHR ''{'' \<or> nextchar = ch CHR ''['' then Inl LookupError
          else if take 4 s = ords ''null'' then Inr (PyNone, drop 4 s)
          else if take 4 s = ords ''true'' then Inr (PyBool True, drop 4 s)
          else if take 5 s = ords ''false'' then Inr (PyBool False, drop 5 s)
          else
            (case match_number s of
               Some res \<Rightarrow> Inr res
             | None \<Rightarrow>
                 if take 3 s = ords ''NaN'' then Inr (PyFloat (ords ''nan''), drop 3 s)
                 else if take 8 s = ords ''Infinity'' then Inr (PyFloat (ords ''inf''), drop 8 s)
                 else if take 9 s = ords ''-Infinity'' then Inr (PyFloat (ords ''-inf''), drop 9 s)
                 else Inl JSONDecodeError))"

definition json_loads :: "pystr \<Rightarrow> error + pyval" where
  "json_loads s =
     (case scan_once (dropWhile is_json_ws s) of
        Inl e \<Rightarrow> Inl e
      | Inr (obj, rest) \<Rightarrow>
          if dropWhile is_json_ws rest = [] then Inr obj else Inl JSONDecodeError)"

text \<open>\<open>json.dumps(key)\<close> for a \<open>str\<close> (\<open>ensure_ascii\<close> is on by default).\<close>

definition hex_digit :: "int \<Rightarrow> pychar" where
  "hex_digit d = (if d < 10 then 48 + d else 87 + d)"

definition hex4 :: "int \<Rightarrow> pystr" where
  "hex4 n = [ch CHR 0x5C, ch CHR ''u'', hex_digit (n div 4096 mod 16), hex_digit (n div 256 mod 16),
             hex_digit (n div 16 mod 16), hex_digit (n mod 16)]"

definition dumps_char :: "pychar \<Rightarrow> pystr" where
  "dumps_char c =
     (if c = ch CHR 0x22 then [ch CHR 0x5C, ch CHR 0x22]
      else if c = ch CHR 0x5C then [ch CHR 0x5C, ch CHR 0x5C]
      else if c = 8 then [ch CHR 0x5C, ch CHR ''b'']
      else if c = 12 then [ch CHR 0x5C, ch CHR ''f'']
      else if c = 10 then [ch CHR 0x5C, ch CHR ''n'']
      else if c = 13 then [ch CHR 0x5C, ch CHR ''r'']
      else if c = 9 then [ch CHR 0x5C, ch CHR ''t'']
      else if 32 \<le> c \<and> c \<le> 126 then [c]
      else if c < 0x10000 then hex4 c
      else hex4 (0xd800 + (c - 0x10000) div 1024 mod 1024) @ hex4 (0xdc00 + (c - 0x10000) mod 1024))"

definition json_dumps :: "pystr \<Rightarrow> pystr" where
  "json_dumps s = ch CHR 0x22 # concat (map dumps_char s) @ [ch CHR 0x22]"

section \<open>The escape decoder: \<open>StreamJsonStringParser\<close>\<close>

record StreamJsonStringParser =
  remains :: pystr

definition string_parser_init :: StreamJsonStringParser where
  "string_parser_init = \<lparr>remains = []\<rparr>"

definition string_parser_feed_char :: "pychar \<Rightarrow> StreamJsonStringParser \<Rightarrow> StreamJsonStringParser" where
  "string_parser_feed_char c sp = sp\<lparr>remains := remains sp @ [c]\<rparr>"

text \<open>
  What \<open>get_escaped_char\<close> returns (\<open>str | bool\<close>): a decoded character, \<open>True\<close> when
  the string has ended, \<open>False\<close> when more input is needed.
\<close>

datatype escaped = Chr pychar | Boolean bool

definition get_escaped_char ::
  "StreamJsonStringParser \<Rightarrow> (error + escaped) \<times> StreamJsonStringParser" where
  "get_escaped_char sp =
     (case remains sp of
        [] \<Rightarrow> (Inr (Boolean False), sp)
      | c # rest \<Rightarrow>
          if c = ch CHR 0x22 then (Inr (Boolean True), sp)
          else if c \<noteq> ch CHR 0x5C then (Inr (Chr c), sp\<lparr>remains := rest\<rparr>)
          else
            (case ESCAPED_match (remains sp) of
               Some len \<Rightarrow>
                 (case unicode_escape (take len (remains sp)) of
                    Inl e \<Rightarrow> (Inl e, sp)
                  | Inr d \<Rightarrow> (Inr (Chr d), sp\<lparr>remains := drop len (remains sp)\<rparr>))
             | None \<Rightarrow>
                 if 2 \<le> length (remains sp)
                    \<and> remains sp ! 1 \<notin> set [ch CHR ''x'', ch CHR ''u'', ch CHR ''U'', ch CHR 0x5C, ch CHR 0x22]
                 then (Inr (Chr (remains sp ! 1)), sp\<lparr>remains := drop 2 (remains sp)\<rparr>)
                 else (Inr (Boolean False), sp)))"

section \<open>The parsing engine: \<open>StreamJsonParser\<close>\<close>

datatype ParserState = OUTSIDE | KEY | ATOMIC_VALUE | STRING_VALUE | INVALID

datatype event = ValuePiece pystr pychar | Value pystr pyval

definition PAIRS :: "pychar \<rightharpoonup> pychar" where
  "PAIRS = [ch CHR ''}'' \<mapsto> ch CHR ''{'', ch CHR '']'' \<mapsto> ch CHR ''['']"

definition is_atomic_value_char :: "pychar \<Rightarrow> bool" where
  "is_atomic_value_char c \<longleftrightarrow> c \<in> set (ords ''0123456789truefalsenull'')"

definition is_whitespace :: "pychar \<Rightarrow> bool" where
  "is_whitespace c \<longleftrightarrow> c \<in> set [32, 10, 9, 13]"

text \<open>The stack is a Python list: the top is its last element.\<close>

record StreamJsonParser =
  state :: ParserState
  stack :: "pyval list"
  toyield :: "event list"
  payload :: pystr
  payload_string_parser :: "StreamJsonStringParser option"
  started :: bool

definition init :: StreamJsonParser where
  "init = \<lparr>state = OUTSIDE, stack = [], toyield = [], payload = [],
            payload_string_parser = None, started = False\<rparr>"

definition OBJECT_OPEN :: pyval where
  "OBJECT_OPEN = PyStr [ch CHR ''{'']"

definition ARRAY_OPEN :: pyval where
  "ARRAY_OPEN = PyStr [ch CHR ''['']"

definition is_current_data_finished :: "StreamJsonParser \<Rightarrow> bool" where
  "is_current_data_finished p \<longleftrightarrow> started p \<and> stack p = []"

text \<open>\<open>re.match("^[0-9a-zA-Z-_]", key)\<close> and the rendering of a key.\<close>

definition key_is_bare :: "pystr \<Rightarrow> bool" where
  "key_is_bare key =
     (case key of
        [] \<Rightarrow> False
      | c # _ \<Rightarrow> (48 \<le> c \<and> c \<le> 57) \<or> (97 \<le> c \<and> c \<le> 122) \<or> (65 \<le> c \<and> c \<le> 90)
                  \<or> c = ch CHR ''-'' \<or> c = ch CHR ''_'')"

definition key_repr :: "pystr \<Rightarrow> pystr" where
  "key_repr key = (if key_is_bare key then key else json_dumps key)"

text \<open>
  The loop of \<open>calculate_current_index_key\<close> over the copy \<open>current\<close> of the stack.
  \<open>current.pop(0)\<close> on an empty list raises \<open>IndexError\<close>; \<open>isinstance(key, int)\<close>
  holds of an \<open>int\<close> and of a \<open>bool\<close>, whose \<open>str\<close> is \<open>True\<close> or \<open>False\<close>.
\<close>

fun index_key_loop :: "pyval list \<Rightarrow> pystr list \<Rightarrow> error + pystr list" where
  "index_key_loop [] result = Inr result"
| "index_key_loop (x # current) result =
     (if x = ARRAY_OPEN then
        (case current of
           [] \<Rightarrow> Inl IndexError
         | key # current' \<Rightarrow>
             (case key of
                PyInt k \<Rightarrow> index_key_loop current' (result @ [str_int k])
              | PyBool b \<Rightarrow> index_key_loop current' (result @ [ords (if b then ''True'' else ''False'')])
              | _ \<Rightarrow> Inl AssertionError))
      else if x = OBJECT_OPEN then
        (case current of
           [] \<Rightarrow> Inl IndexError
         | key # current' \<Rightarrow>
             (case key of
                PyStr k \<Rightarrow> index_key_loop current' (result @ [key_repr k])
              | _ \<Rightarrow> Inl AssertionError))
      else index_key_loop current result)"

definition calculate_current_index_key :: "StreamJsonParser \<Rightarrow> error + pystr" where
  "calculate_current_index_key p =
     (case index_key_loop (stack p) [] of
        Inl e \<Rightarrow> Inl e
      | Inr result \<Rightarrow> Inr (join [ch CHR ''.''] result))"

definition handle_brackets :: "pychar \<Rightarrow> StreamJsonParser \<Rightarrow> outcome \<times> StreamJsonParser" where
  "handle_brackets c p =
     (if c \<in> set (ords ''{['') then (Returned, p\<lparr>stack := stack p @ [PyStr [c]]\<rparr>)
      else if c \<in> set (ords ''}]'') then
        (if stack p = [] then (Raised (RuntimeError Stack_is_empty), p\<lparr>state := INVALID\<rparr>)
         else
           let pair = last (stack p);
               p1 = p\<lparr>stack := butlast (stack p)\<rparr>
           in case PAIRS c of
                None \<Rightarrow> (Raised KeyError, p1)
              | Some opening \<Rightarrow>
                  if pair \<noteq> PyStr [opening]
                  then (Raised (RuntimeError Bracket_mismatch), p1\<lparr>state := INVALID\<rparr>)
                  else if stack p1 \<noteq> [] then
                    (let used_key_index = last (stack p1);
                         p2 = p1\<lparr>stack := butlast (stack p1)\<rparr>
                     in if used_key_index \<in> set [OBJECT_OPEN, ARRAY_OPEN]
                        then (Raised AssertionError, p2)
                        else (Returned, p2))
                  else (Returned, p1))
      else (Returned, p))"

definition handle_inside_object_value :: "pychar \<Rightarrow> StreamJsonParser \<Rightarrow> outcome \<times> StreamJsonParser" where
  "handle_inside_object_value c p =
     (if c = ch CHR 0x22 then (Returned, p\<lparr>payload := [ch CHR 0x22], state := STRING_VALUE\<rparr>)
      else if is_atomic_value_char c
      then (Returned, p\<lparr>payload := payload p @ [c], state := ATOMIC_VALUE\<rparr>)
      else (Raised (RuntimeError Unrecognized_character), p\<lparr>state := INVALID\<rparr>))"

definition current_top :: "StreamJsonParser \<Rightarrow> pyval option" where
  "current_top p = (if stack p \<noteq> [] then Some (last (stack p)) else None)"

definition isinstance_str :: "pyval option \<Rightarrow> bool" where
  "isinstance_str v = (case v of Some (PyStr _) \<Rightarrow> True | _ \<Rightarrow> False)"

text \<open>\<open>len(self.stack) >= 2 and self.stack[-2] == "{"\<close>.\<close>

definition below_top_is_object :: "StreamJsonParser \<Rightarrow> bool" where
  "below_top_is_object p \<longleftrightarrow> 2 \<le> length (stack p) \<and> stack p ! (length (stack p) - 2) = OBJECT_OPEN"

definition feed_char_outside :: "pychar \<Rightarrow> StreamJsonParser \<Rightarrow> outcome \<times> StreamJsonParser" where
  "feed_char_outside c p =
     (if c \<in> set (ords ''{}[]'') then handle_brackets c p
      else if is_whitespace c then (Returned, p)
      else
        let top = current_top p;
            p = p\<lparr>started := True\<rparr>
        in if c = ch CHR '','' \<and> top \<in> set [Some OBJECT_OPEN, Some ARRAY_OPEN] then (Returned, p)
           else if c = ch CHR '':'' \<and> isinstance_str top \<and> below_top_is_object p then (Returned, p)
           else if top = Some OBJECT_OPEN \<and> c = ch CHR 0x22
           then (Returned, p\<lparr>payload := payload p @ [c], state := KEY\<rparr>)
           else if top = Some ARRAY_OPEN then
             (if c = ch CHR 0x22
              then (Returned, p\<lparr>stack := stack p @ [PyInt 0], payload := [ch CHR 0x22],
                                 state := STRING_VALUE\<rparr>)
              else if is_atomic_value_char c
              then (Returned, p\<lparr>stack := stack p @ [PyInt 0], payload := [c],
                                 state := ATOMIC_VALUE\<rparr>)
              else (Raised (RuntimeError Invalid_array_value_start), p\<lparr>state := INVALID\<rparr>))
           else if below_top_is_object p \<and> isinstance_str top
           then handle_inside_object_value c p
           else (Raised (RuntimeError Cannot_recognize_character), p\<lparr>state := INVALID\<rparr>))"

text \<open>\<open>len(payload) - len(payload.rstrip("\\"))\<close>.\<close>

definition backslash_count :: "pystr \<Rightarrow> nat" where
  "backslash_count s = length (takeWhile (\<lambda>c. c = ch CHR 0x5C) (rev s))"

definition feed_char_key :: "pychar \<Rightarrow> StreamJsonParser \<Rightarrow> outcome \<times> StreamJsonParser" where
  "feed_char_key c p =
     (if \<not> (payload p \<noteq> [] \<and> hd (payload p) = ch CHR 0x22) then (Raised AssertionError, p)
      else if c = ch CHR 0x22 \<and> backslash_count (payload p) mod 2 = 0 then
        (case json_loads (payload p @ [c]) of
           Inl e \<Rightarrow> (Raised e, p)
         | Inr key \<Rightarrow> (Returned, p\<lparr>stack := stack p @ [key], payload := [], state := OUTSIDE\<rparr>))
      else (Returned, p\<lparr>payload := payload p @ [c]\<rparr>))"

text \<open>
  In \<open>feed_char_atomic_value\<close> the terminating character is fed again by
  \<open>self.feed_char(c)\<close> after the state has been set to \<open>OUTSIDE\<close>, so the call is the
  one of \<open>feed_char_outside\<close>.
\<close>

definition feed_char_atomic_value :: "pychar \<Rightarrow> StreamJsonParser \<Rightarrow> outcome \<times> StreamJsonParser" where
  "feed_char_atomic_value c p =
     (case calculate_current_index_key p of
        Inl e \<Rightarrow> (Raised e, p)
      | Inr index_key \<Rightarrow>
          if \<not> is_atomic_value_char c then
            (case json_loads (payload p) of
               Inl e \<Rightarrow> (Raised e, p)
             | Inr v \<Rightarrow>
                 let p1 = p\<lparr>payload := [], toyield := toyield p @ [Value index_key v]\<rparr>
                 in if stack p1 = [] then (Raised IndexError, p1)
                    else feed_char_outside c (p1\<lparr>stack := butlast (stack p1), state := OUTSIDE\<rparr>))
          else (Returned, p\<lparr>payload := payload p @ [c]\<rparr>))"

definition feed_char_string_value :: "pychar \<Rightarrow> StreamJsonParser \<Rightarrow> outcome \<times> StreamJsonParser" where
  "feed_char_string_value c p =
     (let sp = (case payload_string_parser p of None \<Rightarrow> string_parser_init | Some sp \<Rightarrow> sp);
          sp1 = string_parser_feed_char c sp;
          p1 = p\<lparr>payload_string_parser := Some sp1, payload := payload p @ [c]\<rparr>
      in case calculate_current_index_key p1 of
           Inl e \<Rightarrow> (Raised e, p1)
         | Inr index_key \<Rightarrow>
             (case get_escaped_char sp1 of
                (Inl e, sp2) \<Rightarrow> (Raised e, p1\<lparr>payload_string_parser := Some sp2\<rparr>)
              | (Inr parsed, sp2) \<Rightarrow>
                  (let p2 = p1\<lparr>payload_string_parser := Some sp2\<rparr>
                   in (case parsed of
                         Chr d \<Rightarrow> (Returned, p2\<lparr>toyield := toyield p2 @ [ValuePiece index_key d]\<rparr>)
                       | Boolean is_string_ended \<Rightarrow>
                           if is_string_ended then
                             (case json_loads (payload p2) of
                                Inl e \<Rightarrow> (Raised e, p2)
                              | Inr v \<Rightarrow>
                                  let p3 = p2\<lparr>toyield := toyield p2 @ [Value index_key v]\<rparr>
                                  in if stack p3 = [] then (Raised IndexError, p3)
                                     else (Returned, p3\<lparr>stack := butlast (stack p3), state := OUTSIDE,
                                                         payload_string_parser := None, payload := []\<rparr>))
                           else (Returned, p2)))))"

definition feed_char :: "pychar \<Rightarrow> StreamJsonParser \<Rightarrow> outcome \<times> StreamJsonParser" where
  "feed_char c p =
     (case state p of
        OUTSIDE \<Rightarrow> feed_char_outside c p
      | KEY \<Rightarrow> feed_char_key c p
      | STRING_VALUE \<Rightarrow> feed_char_string_value c p
      | ATOMIC_VALUE \<Rightarrow> feed_char_atomic_value c p
      | INVALID \<Rightarrow> (Raised (RuntimeError Invalid_parser_state), p))"

text \<open>\<open>feed_string\<close>: the loop ends at the first exception, which leaves the method.\<close>

fun feed_string :: "pystr \<Rightarrow> StreamJsonParser \<Rightarrow> outcome \<times> StreamJsonParser" where
  "feed_string [] p = (Returned, p)"
| "feed_string (c # s) p =
     (case feed_char c p of
        (Returned, p') \<Rightarrow> feed_string s p'
      | (Raised e, p') \<Rightarrow> (Raised e, p'))"

text \<open>\<open>__next__\<close>: \<open>None\<close> is \<open>StopIteration\<close>.\<close>

definition next_event :: "StreamJsonParser \<Rightarrow> event option \<times> StreamJsonParser" where
  "next_event p =
     (case toyield p of
        [] \<Rightarrow> (None, p)
      | e # es \<Rightarrow> (Some e, p\<lparr>toyield := es\<rparr>))"

section \<open>Callers\<close>

text \<open>
  Successive calls \<open>parser.feed_string(chunk)\<close>, as in the loops of \<open>example1\<close> and
  \<open>example2\<close>: there is no handler, so an exception raised by one call ends the sequence.
\<close>

fun feed_strings :: "pystr list \<Rightarrow> StreamJsonParser \<Rightarrow> outcome \<times> StreamJsonParser" where
  "feed_strings [] p = (Returned, p)"
| "feed_strings (s # ss) p =
     (case feed_string s p of
        (Returned, p') \<Rightarrow> feed_strings ss p'
      | (Raised e, p') \<Rightarrow> (Raised e, p'))"

text \<open>
  Successive calls \<open>parser.feed_char(c)\<close> by a caller that catches every exception and
  goes on: the outcome of each call, and the parser at the end.
\<close>

fun feed_chars_caught :: "pystr \<Rightarrow> StreamJsonParser \<Rightarrow> outcome list \<times> StreamJsonParser" where
  "feed_chars_caught [] p = ([], p)"
| "feed_chars_caught (c # cs) p =
     (case feed_char c p of
        (r, p') \<Rightarrow> (case feed_chars_caught cs p' of (rs, p'') \<Rightarrow> (r # rs, p'')))"

text \<open>\<open>for c in parser\<close>: \<open>__next__\<close> until \<open>StopIteration\<close>.\<close>

function drain :: "StreamJsonParser \<Rightarrow> event list \<times> StreamJsonParser" where
  "drain p =
     (case next_event p of
        (None, p') \<Rightarrow> ([], p')
      | (Some e, p') \<Rightarrow> (case drain p' of (es, p'') \<Rightarrow> (e # es, p'')))"
  by pat_completeness auto
termination
  by (relation "measure (\<lambda>p. length (toyield p))") (auto simp: next_event_def split: list.splits)

declare drain.simps [simp del]

text \<open>The parsers a caller can hold: a new one, and what feeding and draining make of it.\<close>

inductive reachable :: "StreamJsonParser \<Rightarrow> bool" where
  reachable_init: "reachable init"
| reachable_feed: "reachable p \<Longrightarrow> reachable (snd (feed_char c p))"
| reachable_next: "reachable p \<Longrightarrow> reachable (snd (next_event p))"

definition open_value :: "StreamJsonParser \<Rightarrow> bool" where
  "open_value p \<longleftrightarrow> state p \<in> {KEY, ATOMIC_VALUE, STRING_VALUE}"

section \<open>Invariants\<close>

text \<open>
  What holds of the payload of every parser a caller can hold, state by state.
\<close>

definition payload_ok :: "StreamJsonParser \<Rightarrow> bool" where
  "payload_ok p =
     (case state p of
        OUTSIDE \<Rightarrow> payload p = []
      | KEY \<Rightarrow> payload p \<noteq> [] \<and> hd (payload p) = ch CHR 0x22
      | STRING_VALUE \<Rightarrow> payload p \<noteq> [] \<and> hd (payload p) = ch CHR 0x22
      | ATOMIC_VALUE \<Rightarrow> payload p \<noteq> [] \<and> is_atomic_value_char (hd (payload p))
      | INVALID \<Rightarrow> True)"

text \<open>
  The two errors that stand for what the model leaves out: \<open>KeyError\<close> for a character
  that is not a key of \<open>PAIRS\<close>, \<open>LookupError\<close> for a library call outside the modelled
  texts.
\<close>

definition model_only :: "error \<Rightarrow> bool" where
  "model_only e \<longleftrightarrow> e = KeyError \<or> e = LookupError"

section \<open>Errors and invariants of reachable parsers\<close>

lemma unicode_escape_matched:
  assumes "ESCAPED_match s = Some n"
  shows "unicode_escape (take n s) \<noteq> Inl LookupError"
proof -
  from assms obtain b c rest where s: "s = b # c # rest"
    by (cases s rule: ESCAPED_match.cases) auto
  from assms show ?thesis unfolding s
    by (auto simp: unicode_escape_def hex_run_def split: if_splits)
qed

lemma atomic_not_ws: "is_atomic_value_char c \<Longrightarrow> \<not> is_json_ws c \<and> c \<noteq> ch CHR ''{'' \<and> c \<noteq> ch CHR ''[''"
  by (auto simp: is_atomic_value_char_def is_json_ws_def ords_def)

lemma quote_not_ws: "\<not> is_json_ws (ch CHR 0x22)"
  by (simp add: is_json_ws_def)

lemma index_key_loop_error:
  "index_key_loop current result = Inl e \<Longrightarrow> e = IndexError \<or> e = AssertionError"
proof (induction current result rule: index_key_loop.induct)
  case (1 result)
  then show ?case by simp
next
  case (2 x current result)
  show ?case
  proof (cases "x = ARRAY_OPEN")
    case True
    show ?thesis
    proof (cases current)
      case Nil
      with True "2.prems" show ?thesis by simp
    next
      case (Cons key current')
      with True "2.prems" "2.IH"(1,2) [of key current'] show ?thesis
        by (cases key) (simp_all split: if_splits)
    qed
  next
    case na: False
    show ?thesis
    proof (cases "x = OBJECT_OPEN")
      case True
      show ?thesis
      proof (cases current)
        case Nil
        with True na "2.prems" show ?thesis by simp
      next
        case (Cons key current')
        with True na "2.prems" "2.IH"(3) [of key current'] show ?thesis
          by (cases key) simp_all
      qed
    next
      case False
      with na "2.prems" "2.IH"(4) show ?thesis by simp
    qed
  qed
qed

lemma calculate_current_index_key_error:
  "calculate_current_index_key p = Inl e \<Longrightarrow> e = IndexError \<or> e = AssertionError"
  by (auto simp: calculate_current_index_key_def split: sum.splits dest: index_key_loop_error)

lemma cons_char_Inl: "cons_char c r = Inl e \<Longrightarrow> r = Inl e"
  by (auto simp: cons_char_def split: sum.splits prod.splits)

lemma scanstring_error: "scanstring s = Inl e \<Longrightarrow> e = JSONDecodeError"
proof (induction s rule: scanstring.induct)
  case 1
  then show ?case by simp
next
  case (2 c s)
  show ?case
  proof (cases "c = ch CHR 0x22")
    case True
    with "2.prems" show ?thesis by simp
  next
    case nq: False
    show ?thesis
    proof (cases "c = ch CHR 0x5C")
      case False
      with nq "2.prems" "2.IH"(5) show ?thesis
        by (auto split: if_splits dest: cons_char_Inl)
    next
      case True
      show ?thesis
      proof (cases s)
        case Nil
        with True nq "2.prems" show ?thesis by simp
      next
        case (Cons esc s')
        show ?thesis
        proof (cases "esc = ch CHR ''u''")
          case False
          with Cons True nq "2.prems" "2.IH"(1) [of esc s'] show ?thesis
            by (auto split: option.splits dest!: cons_char_Inl)
        next
          case u: True
          show ?thesis
          proof (cases "decode_uXXXX s'")
            case None
            with u Cons True nq "2.prems" show ?thesis by simp
          next
            case (Some uni)
            let ?pair = "0xd800 \<le> uni \<and> uni \<le> 0xdbff
                       \<and> take 2 (drop 4 s') = [ch CHR 0x5C, ch CHR ''u'']"
            show ?thesis
            proof (cases ?pair)
              case False
              with Some u Cons True nq "2.prems" have "cons_char uni (scanstring (drop 4 s')) = Inl e"
                by (simp split: if_splits)
              from cons_char_Inl [OF this] "2.IH"(4) [OF nq True Cons _ Some False] u
              show ?thesis by simp
            next
              case pair: True
              show ?thesis
              proof (cases "decode_uXXXX (drop 6 s')")
                case None
                with pair Some u Cons True nq "2.prems" show ?thesis by simp
              next
                case uni2: (Some uni2)
                show ?thesis
                proof (cases "0xdc00 \<le> uni2 \<and> uni2 \<le> 0xdfff")
                  case low: True
                  with uni2 pair Some u Cons True nq "2.prems"
                  have "cons_char (0x10000 + ((uni - 0xd800) * 1024 + (uni2 - 0xdc00)))
                          (scanstring (drop 10 s')) = Inl e"
                    by simp
                  from cons_char_Inl [OF this] "2.IH"(2) [OF nq True Cons _ Some pair uni2 low] u
                  show ?thesis by simp
                next
                  case nolow: False
                  with uni2 pair Some u Cons True nq "2.prems"
                  have "cons_char uni (scanstring (drop 4 s')) = Inl e"
                    by simp
                  from cons_char_Inl [OF this] "2.IH"(3) [OF nq True Cons _ Some pair uni2 nolow] u
                  show ?thesis by simp
                qed
              qed
            qed
          qed
        qed
      qed
    qed
  qed
qed

lemma scan_once_error:
  assumes "scan_once (c # r) = Inl e" and "c \<noteq> ch CHR ''{''" and "c \<noteq> ch CHR ''[''"
  shows "e = JSONDecodeError"
proof (cases "c = ch CHR 0x22")
  case True
  with assms(1) scanstring_error [of r] show ?thesis
    by (auto simp: scan_once_def split: sum.splits)
next
  case False
  with assms show ?thesis
    by (simp add: scan_once_def split: if_splits option.splits)
qed

lemma json_loads_error:
  assumes "json_loads (c # r) = Inl e" and "\<not> is_json_ws c"
    and "c \<noteq> ch CHR ''{''" and "c \<noteq> ch CHR ''[''"
  shows "e = JSONDecodeError"
proof (cases "scan_once (c # r)")
  case (Inl e')
  with assms(1,2) have "e' = e" by (simp add: json_loads_def)
  with Inl scan_once_error [OF _ assms(3,4)] show ?thesis by simp
next
  case (Inr res)
  with assms(1,2) show ?thesis by (cases res) (simp add: json_loads_def split: if_splits)
qed

lemma unicode_escape_error:
  "unicode_escape span = Inl e \<Longrightarrow> e = LookupError \<or> e = UnicodeDecodeError"
  by (simp add: unicode_escape_def split: list.splits if_splits)

lemma get_escaped_char_error:
  assumes "get_escaped_char sp = (Inl e, sp')"
  shows "e = UnicodeDecodeError"
proof (cases "ESCAPED_match (remains sp)")
  case None
  with assms show ?thesis
    by (simp add: get_escaped_char_def split: list.splits if_splits)
next
  case (Some len)
  with assms have "unicode_escape (take len (remains sp)) = Inl e"
    by (simp add: get_escaped_char_def split: list.splits if_splits sum.splits)
  with unicode_escape_error [OF this] unicode_escape_matched [OF Some] show ?thesis by auto
qed

lemma handle_brackets_state:
  "handle_brackets c p = (r, q) \<Longrightarrow> state q = state p \<or> state q = INVALID"
  by (auto simp: handle_brackets_def Let_def split: option.splits if_splits)

lemma handle_brackets_payload:
  "handle_brackets c p = (r, q) \<Longrightarrow> payload q = payload p"
  by (auto simp: handle_brackets_def Let_def split: option.splits if_splits)

lemma PAIRS_closing: "c \<in> set (ords ''}]'') \<Longrightarrow> PAIRS c \<noteq> None"
  by (auto simp: PAIRS_def ords_def)

lemma handle_brackets_error:
  assumes "handle_brackets c p = (Raised e, q)"
  shows "\<not> model_only e"
proof (cases "c \<in> set (ords ''}]'')")
  case True
  from PAIRS_closing [OF this] obtain br where "PAIRS c = Some br" by auto
  with assms show ?thesis
    by (auto simp: handle_brackets_def Let_def model_only_def split: if_splits)
next
  case False
  with assms show ?thesis
    by (auto simp: handle_brackets_def split: if_splits)
qed

lemma handle_inside_object_value_ok:
  assumes "handle_inside_object_value c p = (r, q)" and "payload p = []"
  shows "payload_ok q \<and> (\<forall>e. r = Raised e \<longrightarrow> \<not> model_only e)"
  using assms
  by (auto simp: handle_inside_object_value_def payload_ok_def model_only_def split: if_splits)

lemma feed_char_outside_ok:
  assumes "feed_char_outside c p = (r, q)" and "state p = OUTSIDE" and "payload p = []"
  shows "payload_ok q \<and> (\<forall>e. r = Raised e \<longrightarrow> \<not> model_only e)"
proof (cases "c \<in> set (ords ''{}[]'')")
  case True
  with assms(1) have hb: "handle_brackets c p = (r, q)" by (simp add: feed_char_outside_def)
  from handle_brackets_state [OF hb] handle_brackets_payload [OF hb] assms(2,3)
  have "payload_ok q" by (auto simp: payload_ok_def)
  with hb handle_brackets_error [of c p _ q] show ?thesis by auto
next
  case False
  show ?thesis
  proof (cases "is_whitespace c")
    case True
    with False assms show ?thesis by (auto simp: feed_char_outside_def payload_ok_def)
  next
    case ws: False
    from assms(3) have "payload (p\<lparr>started := True\<rparr>) = []" by simp
    note hi = handle_inside_object_value_ok [OF _ this, of c r q]
    from False ws assms hi show ?thesis
      by (auto simp: feed_char_outside_def Let_def payload_ok_def model_only_def split: if_splits)
  qed
qed

lemma feed_char_key_ok:
  assumes "feed_char_key c p = (r, q)" and "state p = KEY" and "payload_ok p"
  shows "payload_ok q \<and> (\<forall>e. r = Raised e \<longrightarrow> \<not> model_only e)"
proof -
  from assms(2,3) have True: "payload p \<noteq> [] \<and> hd (payload p) = ch CHR 0x22"
    by (simp add: payload_ok_def)
  then obtain rest where pl: "payload p = ch CHR 0x22 # rest" by (cases "payload p") auto
  show ?thesis
  proof (cases "c = ch CHR 0x22 \<and> backslash_count (payload p) mod 2 = 0")
    case False
    with True assms show ?thesis
      by (auto simp: feed_char_key_def payload_ok_def)
  next
    case close: True
    show ?thesis
    proof (cases "json_loads (payload p @ [c])")
      case (Inl e)
      then have "json_loads (ch CHR 0x22 # (rest @ [c])) = Inl e" by (simp add: pl)
      from json_loads_error [OF this] have "e = JSONDecodeError" by (simp add: is_json_ws_def)
      with Inl close True assms show ?thesis
        by (auto simp: feed_char_key_def payload_ok_def model_only_def)
    next
      case (Inr key)
      with close True assms show ?thesis
        by (auto simp: feed_char_key_def payload_ok_def)
    qed
  qed
qed

lemma feed_char_atomic_value_ok:
  assumes "feed_char_atomic_value c p = (r, q)" and "state p = ATOMIC_VALUE" and "payload_ok p"
    and ne: "stack p \<noteq> []"
  shows "payload_ok q \<and> (\<forall>e. r = Raised e \<longrightarrow> \<not> model_only e)"
proof (cases "calculate_current_index_key p")
  case (Inl e)
  with assms(1) have "r = Raised e" "q = p" by (simp_all add: feed_char_atomic_value_def)
  with calculate_current_index_key_error [OF Inl] assms(3) show ?thesis
    by (auto simp: model_only_def)
next
  case (Inr index_key)
  from assms(2,3) obtain a rest where pl: "payload p = a # rest" and a: "is_atomic_value_char a"
    by (cases "payload p") (auto simp: payload_ok_def)
  show ?thesis
  proof (cases "is_atomic_value_char c")
    case True
    with Inr assms pl a show ?thesis
      by (auto simp: feed_char_atomic_value_def payload_ok_def)
  next
    case False
    show ?thesis
    proof (cases "json_loads (payload p)")
      case (Inl e)
      with pl have "json_loads (a # rest) = Inl e" by simp
      from json_loads_error [OF this] atomic_not_ws [OF a] have "e = JSONDecodeError" by simp
      with Inl Inr False assms show ?thesis
        by (auto simp: feed_char_atomic_value_def model_only_def)
    next
      case jr: (Inr v)
      let ?p' = "p\<lparr>payload := [], toyield := toyield p @ [Value index_key v],
                   stack := butlast (stack p), state := OUTSIDE\<rparr>"
      from ne jr Inr False assms(1) have "feed_char_outside c ?p' = (r, q)"
        by (simp add: feed_char_atomic_value_def Let_def)
      from feed_char_outside_ok [OF this] show ?thesis by simp
    qed
  qed
qed

lemma json_loads_quoted_error: "json_loads (34 # r) = Inl e \<Longrightarrow> e = JSONDecodeError"
  using json_loads_error [of 34 r e] by (simp add: is_json_ws_def)

lemma feed_char_string_value_ok:
  assumes "feed_char_string_value c p = (r, q)" and "state p = STRING_VALUE" and "payload_ok p"
  shows "payload_ok q \<and> (\<forall>e. r = Raised e \<longrightarrow> \<not> model_only e)"
proof -
  from assms(2,3) obtain rest where pl: "payload p = 34 # rest"
    by (cases "payload p") (auto simp: payload_ok_def)
  from assms(1,2) pl show ?thesis
    by (auto simp: feed_char_string_value_def Let_def payload_ok_def model_only_def
        split: sum.splits prod.splits escaped.splits if_splits
        dest: calculate_current_index_key_error get_escaped_char_error json_loads_quoted_error)
qed

lemma current_top_Some: "current_top p = Some x \<Longrightarrow> stack p \<noteq> []"
  by (auto simp: current_top_def split: if_splits)

lemma current_top_started [simp]: "current_top (p\<lparr>started := b\<rparr>) = current_top p"
  by (simp add: current_top_def)

lemma below_top_nonempty: "below_top_is_object p \<Longrightarrow> stack p \<noteq> []"
  by (auto simp: below_top_is_object_def)

lemma below_top_started [simp]: "below_top_is_object (p\<lparr>started := b\<rparr>) = below_top_is_object p"
  by (simp add: below_top_is_object_def)

lemma handle_inside_object_value_stack:
  "handle_inside_object_value c p = (r, q) \<Longrightarrow> stack q = stack p"
  by (auto simp: handle_inside_object_value_def split: if_splits)

lemma feed_char_outside_open:
  assumes "feed_char_outside c p = (r, q)" and "state p = OUTSIDE" and "open_value q"
  shows "stack q \<noteq> []"
proof (cases "c \<in> set (ords ''{}[]'')")
  case True
  with assms(1) have "handle_brackets c p = (r, q)" by (simp add: feed_char_outside_def)
  from handle_brackets_state [OF this] assms(2,3) show ?thesis by (auto simp: open_value_def)
next
  case False
  show ?thesis
  proof (cases "is_whitespace c")
    case True
    with False assms show ?thesis by (simp add: feed_char_outside_def open_value_def)
  next
    case ws: False
    show ?thesis
    proof (cases "current_top p")
      case None
      with False ws assms show ?thesis
        using handle_inside_object_value_stack [of c "p\<lparr>started := True\<rparr>" r q] below_top_nonempty [of p]
        by (auto simp: feed_char_outside_def Let_def open_value_def isinstance_str_def split: if_splits)
    next
      case (Some x)
      from current_top_Some [OF this] have ne: "stack p \<noteq> []" .
      with False ws assms Some show ?thesis
        using handle_inside_object_value_stack [of c "p\<lparr>started := True\<rparr>" r q]
        by (auto simp: feed_char_outside_def Let_def open_value_def split: if_splits)
    qed
  qed
qed

lemma feed_char_inv:
  assumes "feed_char c p = (r, q)" and "open_value p \<longrightarrow> stack p \<noteq> []" and "open_value q"
  shows "stack q \<noteq> []"
proof (cases "state p")
  case OUTSIDE
  then show ?thesis using assms feed_char_outside_open [of c p r q] by (simp add: feed_char_def)
next
  case KEY
  then show ?thesis using assms
    by (auto simp: feed_char_def feed_char_key_def open_value_def split: sum.splits if_splits)
next
  case ATOMIC_VALUE
  then show ?thesis using assms
      feed_char_outside_open [of c "p\<lparr>payload := [], toyield := toyield p @ [Value k v], stack := butlast (stack p), state := OUTSIDE\<rparr>" r q for k v]
    by (auto simp: feed_char_def feed_char_atomic_value_def open_value_def Let_def split: sum.splits if_splits)
next
  case STRING_VALUE
  then show ?thesis using assms
    by (auto simp: feed_char_def feed_char_string_value_def open_value_def Let_def
        split: sum.splits if_splits prod.splits escaped.splits)
next
  case INVALID
  then show ?thesis using assms by (auto simp: feed_char_def open_value_def)
qed

lemma reachable_inv: "reachable p \<Longrightarrow> open_value p \<longrightarrow> stack p \<noteq> []"
proof (induction rule: reachable.induct)
  case reachable_init
  then show ?case by (simp add: init_def open_value_def)
next
  case (reachable_feed p c)
  then show ?case using feed_char_inv [of c p "fst (feed_char c p)" "snd (feed_char c p)"] by auto
next
  case (reachable_next p)
  then show ?case by (auto simp: next_event_def open_value_def split: list.splits)
qed

lemma feed_char_ok:
  assumes "feed_char c p = (r, q)" and "payload_ok p" and "open_value p \<longrightarrow> stack p \<noteq> []"
  shows "payload_ok q \<and> (\<forall>e. r = Raised e \<longrightarrow> \<not> model_only e)"
proof (cases "state p")
  case OUTSIDE
  with assms(2) have "payload p = []" by (simp add: payload_ok_def)
  with OUTSIDE assms(1) feed_char_outside_ok [of c p r q] show ?thesis by (simp add: feed_char_def)
next
  case KEY
  with assms feed_char_key_ok [of c p r q] show ?thesis by (simp add: feed_char_def)
next
  case ATOMIC_VALUE
  with assms feed_char_atomic_value_ok [of c p r q] show ?thesis
    by (simp add: feed_char_def open_value_def)
next
  case STRING_VALUE
  with assms feed_char_string_value_ok [of c p r q] show ?thesis by (simp add: feed_char_def)
next
  case INVALID
  with assms show ?thesis by (auto simp: feed_char_def model_only_def)
qed

lemma reachable_payload_ok: "reachable p \<Longrightarrow> payload_ok p"
proof (induction rule: reachable.induct)
  case reachable_init
  then show ?case by (simp add: init_def payload_ok_def)
next
  case (reachable_feed p c)
  then show ?case
    using feed_char_ok [of c p "fst (feed_char c p)" "snd (feed_char c p)"] reachable_inv [of p]
    by simp
next
  case (reachable_next p)
  have "payload_ok (p\<lparr>toyield := es\<rparr>) = payload_ok p" for es
    by (cases "state p") (simp_all add: payload_ok_def)
  with reachable_next show ?case by (cases "toyield p") (simp_all add: next_event_def)
qed

lemma model_errors_unreachable:
  assumes "reachable p"
  shows "fst (feed_char c p) \<noteq> Raised KeyError \<and> fst (feed_char c p) \<noteq> Raised LookupError"
  using feed_char_ok [of c p "fst (feed_char c p)" "snd (feed_char c p)"]
    reachable_payload_ok [OF assms] reachable_inv [OF assms]
  by (auto simp: model_only_def)

section \<open>Array indices and paths\<close>

text \<open>
  C1. The claim: the index recorded for an array element starts at 0 and is incremented
  each time a value inside that array completes, so that the document
  \<open>{"name":"x","age":1,"pref":["a","b"]}\<close> yields the values at \<open>name\<close>, \<open>age\<close>,
  \<open>pref.0\<close> and \<open>pref.1\<close>. The code pushes the index 0 for every element and never
  increments it: the fourth value is emitted at \<open>pref.0\<close> again.
\<close>

theorem array_index_stays_zero:
  \<open>feed_string (ords ''{"name":"x","age":1,"pref":["a","b"]}'') init =
    (Returned,
     \<lparr>state = OUTSIDE, stack = [],
      toyield =
        [ValuePiece (ords ''name'') (ch CHR ''x''), Value (ords ''name'') (PyStr (ords ''x'')),
         Value (ords ''age'') (PyInt 1),
         ValuePiece (ords ''pref.0'') (ch CHR ''a''), Value (ords ''pref.0'') (PyStr (ords ''a'')),
         ValuePiece (ords ''pref.0'') (ch CHR ''b''), Value (ords ''pref.0'') (PyStr (ords ''b''))],
      payload = [], payload_string_parser = None, started = True\<rparr>)\<close>
  by code_simp

text \<open>
  C2. The claim: every event's path is the canonical dot path, and for
  \<open>{"a":[1,{"b":2}]}\<close> the value 2 is emitted at \<open>a.1.b\<close>. The code emits the value 1
  at \<open>a.0\<close>, pushes no index for the object that follows in the array, and when the
  literal 2 ends, the path computation finds the marker of that object where the
  array's index should be: \<open>assert isinstance(key, int)\<close> fails and no event for 2 is
  ever queued.
\<close>

theorem nested_object_in_array_fails:
  \<open>feed_string (ords ''{"a":[1,{"b":2}]}'') init =
    (Raised AssertionError,
     \<lparr>state = ATOMIC_VALUE,
      stack = [OBJECT_OPEN, PyStr (ords ''a''), ARRAY_OPEN, OBJECT_OPEN, PyStr (ords ''b'')],
      toyield = [Value (ords ''a.0'') (PyInt 1)],
      payload = ords ''2'', payload_string_parser = None, started = True\<rparr>)\<close>
  by code_simp

section \<open>String values\<close>

text \<open>
  C3. The claim: the characters of the \<open>ValuePiece\<close> events of a string, concatenated,
  are the string of its final \<open>Value\<close>, also for surrogate pairs. For the document
  \<open>["\ud83d\ude00"]\<close> the pieces are the two surrogates U+D83D and U+DE00, while the
  final value is the one character U+1F600.
\<close>

theorem surrogate_pair_pieces_differ:
  \<open>feed_string (ords ''["'' @ ch CHR 0x5C # ords ''ud83d'' @ ch CHR 0x5C # ords ''ude00"]'') init =
    (Returned,
     \<lparr>state = OUTSIDE, stack = [],
      toyield =
        [ValuePiece (ords ''0'') 0xD83D, ValuePiece (ords ''0'') 0xDE00,
         Value (ords ''0'') (PyStr [0x1F600])],
      payload = [], payload_string_parser = None, started = True\<rparr>)\<close>
  by code_simp

text \<open>
  C10. For the input \<open>["\q"\<close>, and for \<open>["\x41"\<close>, the decoder accepts the escape
  (a piece is queued), the closing quote makes the final decode of the whole payload
  raise, the state stays \<open>STRING_VALUE\<close>, and every further character is handled by
  \<open>feed_char_string_value\<close>.
\<close>

theorem invalid_escape_keeps_string_state:
  \<open>feed_string (ords ''["'' @ ch CHR 0x5C # ords ''q"'') init =
     (Raised JSONDecodeError,
      \<lparr>state = STRING_VALUE, stack = [ARRAY_OPEN, PyInt 0],
       toyield = [ValuePiece (ords ''0'') (ch CHR ''q'')],
       payload = ch CHR 0x22 # ch CHR 0x5C # ords ''q"'',
       payload_string_parser = Some \<lparr>remains = [ch CHR 0x22]\<rparr>, started = True\<rparr>)
   \<and> feed_string (ords ''["'' @ ch CHR 0x5C # ords ''x41"'') init =
     (Raised JSONDecodeError,
      \<lparr>state = STRING_VALUE, stack = [ARRAY_OPEN, PyInt 0],
       toyield = [ValuePiece (ords ''0'') (ch CHR ''A'')],
       payload = ch CHR 0x22 # ch CHR 0x5C # ords ''x41"'',
       payload_string_parser = Some \<lparr>remains = [ch CHR 0x22]\<rparr>, started = True\<rparr>)
   \<and> feed_char c (snd (feed_string (ords ''["'' @ ch CHR 0x5C # ords ''q"'') init)) =
       feed_char_string_value c (snd (feed_string (ords ''["'' @ ch CHR 0x5C # ords ''q"'') init))\<close>
proof -
  have q: \<open>feed_string (ords ''["'' @ ch CHR 0x5C # ords ''q"'') init =
     (Raised JSONDecodeError,
      \<lparr>state = STRING_VALUE, stack = [ARRAY_OPEN, PyInt 0],
       toyield = [ValuePiece (ords ''0'') (ch CHR ''q'')],
       payload = ch CHR 0x22 # ch CHR 0x5C # ords ''q"'',
       payload_string_parser = Some \<lparr>remains = [ch CHR 0x22]\<rparr>, started = True\<rparr>)\<close>
    by code_simp
  have x: \<open>feed_string (ords ''["'' @ ch CHR 0x5C # ords ''x41"'') init =
     (Raised JSONDecodeError,
      \<lparr>state = STRING_VALUE, stack = [ARRAY_OPEN, PyInt 0],
       toyield = [ValuePiece (ords ''0'') (ch CHR ''A'')],
       payload = ch CHR 0x22 # ch CHR 0x5C # ords ''x41"'',
       payload_string_parser = Some \<lparr>remains = [ch CHR 0x22]\<rparr>, started = True\<rparr>)\<close>
    by code_simp
  show ?thesis unfolding q x by (simp add: feed_char_def)
qed

section \<open>Assertions and completion\<close>

text \<open>
  C4. The claim: no input makes the slot assertions fail. The input \<open>[[]\<close> does: an
  array opened inside an array gets no index slot, so the bracket that closes the inner
  array pops the outer array's marker as if it were the slot, and
  \<open>assert used_key_index not in ["{", "["]\<close> fails. The input \<open>[[1]\<close> makes the
  assertion of the path computation fail (\<open>isinstance(key, int)\<close> of the marker \<open>[\<close>).
\<close>

theorem slot_assertions_fail:
  \<open>feed_string (ords ''[[]'') init =
     (Raised AssertionError,
      \<lparr>state = OUTSIDE, stack = [], toyield = [], payload = [],
       payload_string_parser = None, started = False\<rparr>)
   \<and> feed_string (ords ''[[1]'') init =
     (Raised AssertionError,
      \<lparr>state = ATOMIC_VALUE, stack = [ARRAY_OPEN, ARRAY_OPEN, PyInt 0], toyield = [],
       payload = ords ''1'', payload_string_parser = None, started = True\<rparr>)\<close>
  by code_simp

text \<open>
  C5. The claim: \<open>is_current_data_finished\<close> is true once the stack has been non-empty
  and is empty again, in particular after the documents \<open>{}\<close> and \<open>[]\<close>. The flag
  \<open>started\<close> is set only after the branches for brackets and whitespace have returned,
  so after \<open>{}\<close> and after \<open>[]\<close> the stack is empty again and the answer is false.
\<close>

theorem empty_containers_not_finished:
  \<open>stack (snd (feed_string (ords ''{'') init)) = [OBJECT_OPEN]
   \<and> feed_string (ords ''{}'') init = (Returned, init)
   \<and> stack (snd (feed_string (ords ''['') init)) = [ARRAY_OPEN]
   \<and> feed_string (ords ''[]'') init = (Returned, init)
   \<and> is_current_data_finished (snd (feed_string (ords ''{}'') init)) = False
   \<and> is_current_data_finished (snd (feed_string (ords ''[]'') init)) = False\<close>
  by code_simp

section \<open>The escape decoder\<close>

text \<open>
  C6. The claim: \<open>get_escaped_char\<close> never raises, for every choice of hex digits in
  \<open>\xHH\<close>, \<open>\uHHHH\<close> and \<open>\UHHHHHHHH\<close>. The pattern accepts any eight hex digits after
  \<open>\U\<close>, and the codec raises \<open>UnicodeDecodeError\<close> when they name a value above
  U+10FFFF: so does the decoder on \<open>\U00110000\<close>, leaving its buffer as it was, and so
  does the engine on the document \<open>["\U00110000\<close>.
\<close>

theorem escape_above_max_code_point_raises:
  \<open>get_escaped_char \<lparr>remains = ch CHR 0x5C # ords ''U00110000''\<rparr> =
     (Inl UnicodeDecodeError, \<lparr>remains = ch CHR 0x5C # ords ''U00110000''\<rparr>)
   \<and> fst (feed_string (ords ''["'' @ ch CHR 0x5C # ords ''U00110000'') init) = Raised UnicodeDecodeError\<close>
  by code_simp

text \<open>
  C8. When the buffer starts with a backslash and \<open>ESCAPED\<close> does not match it: if there
  is a second character and it is none of \<open>x u U \ "\<close>, the decoder consumes two
  characters and returns the second one; otherwise it returns \<open>False\<close> (more input
  needed) and the buffer is unchanged.
\<close>

theorem unrecognized_escape_fallback:
  assumes "remains sp = ch CHR 0x5C # rest" and "ESCAPED_match (remains sp) = None"
  shows "get_escaped_char sp =
     (if rest \<noteq> [] \<and> hd rest \<notin> set [ch CHR ''x'', ch CHR ''u'', ch CHR ''U'', ch CHR 0x5C, ch CHR 0x22]
      then (Inr (Chr (hd rest)), sp\<lparr>remains := drop 2 (remains sp)\<rparr>)
      else (Inr (Boolean False), sp))"
  using assms by (cases rest) (auto simp: get_escaped_char_def)

theorem unrecognized_escape_fallback_witness:
  \<open>ESCAPED_match (ch CHR 0x5C # ords ''qz'') = None
   \<and> get_escaped_char \<lparr>remains = ch CHR 0x5C # ords ''qz''\<rparr> =
       (Inr (Chr (ch CHR ''q'')), \<lparr>remains = ords ''z''\<rparr>)
   \<and> ESCAPED_match (ch CHR 0x5C # ords ''u12'') = None
   \<and> get_escaped_char \<lparr>remains = ch CHR 0x5C # ords ''u12''\<rparr> =
       (Inr (Boolean False), \<lparr>remains = ch CHR 0x5C # ords ''u12''\<rparr>)\<close>
proof -
  have m1: "ESCAPED_match (ch CHR 0x5C # ords ''qz'') = None" by code_simp
  have m2: "ESCAPED_match (ch CHR 0x5C # ords ''u12'') = None" by code_simp
  show ?thesis
    using unrecognized_escape_fallback [of "\<lparr>remains = ch CHR 0x5C # ords ''qz''\<rparr>" "ords ''qz''"]
      unrecognized_escape_fallback [of "\<lparr>remains = ch CHR 0x5C # ords ''u12''\<rparr>" "ords ''u12''"]
      m1 m2
    by (simp add: ords_def)
qed

section \<open>Chunking\<close>

lemma feed_string_append:
  "feed_string (a @ b) p =
     (case feed_string a p of
        (Returned, p') \<Rightarrow> feed_string b p'
      | (Raised e, p') \<Rightarrow> (Raised e, p'))"
  by (induction a arbitrary: p) (auto split: prod.splits outcome.splits)

lemma feed_strings_concat: "feed_strings chunks p = feed_string (concat chunks) p"
  by (induction chunks arbitrary: p) (auto simp: feed_string_append split: prod.splits outcome.splits)

text \<open>
  C9. Calling \<open>feed_string(a)\<close> and then \<open>feed_string(b)\<close> gives the same outcome and the
  same parser (state, stack, queued events and all) as calling \<open>feed_string(a + b)\<close>;
  hence a text fed in chunks of any sizes, or character by character, gives what the
  text fed at once gives.
\<close>

theorem feed_string_chunking:
  "feed_strings [a, b] p = feed_string (a @ b) p
   \<and> feed_strings chunks p = feed_string (concat chunks) p
   \<and> feed_strings (map (\<lambda>c. [c]) s) p = feed_string s p"
proof -
  have "concat (map (\<lambda>c. [c]) s) = s" by (induction s) auto
  then show ?thesis
    using feed_strings_concat [of "[a, b]" p] feed_strings_concat [of "map (\<lambda>c. [c]) s" p]
    by (simp add: feed_strings_concat)
qed

section \<open>Failure\<close>

lemma drain_eq: "drain p = (toyield p, p\<lparr>toyield := []\<rparr>)"
proof (induction "toyield p" arbitrary: p)
  case Nil
  then show ?case by (subst drain.simps) (simp add: next_event_def)
next
  case (Cons e es)
  from Cons(2) have t: "toyield p = e # es" by simp
  have "es = toyield (p\<lparr>toyield := es\<rparr>)" by simp
  from Cons(1)[OF this] show ?case
    by (subst drain.simps) (simp add: next_event_def t)
qed

lemma reachable_feed_string: "reachable p \<Longrightarrow> reachable (snd (feed_string s p))"
proof (induction s arbitrary: p)
  case Nil
  then show ?case by simp
next
  case (Cons c s)
  from Cons(2) have r: "reachable (snd (feed_char c p))" by (rule reachable_feed)
  show ?case
  proof (cases "feed_char c p")
    case (Pair out p')
    with r have r': "reachable p'" by simp
    show ?thesis using Pair r' Cons(1) [OF r'] by (cases out) auto
  qed
qed

lemma invalid_absorbs:
  "state q = INVALID \<Longrightarrow>
     feed_chars_caught cs q = (replicate (length cs) (Raised (RuntimeError Invalid_parser_state)), q)"
  by (induction cs) (auto simp: feed_char_def)

lemma two_numbers_fed:
  \<open>feed_string (ords ''[1,2]'') init =
    (Returned,
     \<lparr>state = OUTSIDE, stack = [],
      toyield = [Value (ords ''0'') (PyInt 1), Value (ords ''0'') (PyInt 2)],
      payload = [], payload_string_parser = None, started = True\<rparr>)\<close>
  by code_simp

text \<open>
  C7. A parser whose stack is empty (one a caller can hold: made by feeding and
  draining a new parser) answers the character \<open>]\<close> with the error "Stack is empty" and
  is \<open>INVALID\<close> afterwards; a parser that had already failed answers it, like every
  character, with "Invalid parser state". Every later \<open>feed_char\<close> raises and changes
  nothing, so the queue holds the events it held before the failure and no others, and
  draining returns them in their order.
\<close>

theorem close_bracket_on_empty_stack:
  assumes "reachable p" and "stack p = []"
  shows "feed_char (ch CHR '']'') p =
           (Raised (RuntimeError (if state p = INVALID then Invalid_parser_state else Stack_is_empty)),
            p\<lparr>state := INVALID\<rparr>)
       \<and> feed_chars_caught cs (p\<lparr>state := INVALID\<rparr>) =
           (replicate (length cs) (Raised (RuntimeError Invalid_parser_state)), p\<lparr>state := INVALID\<rparr>)
       \<and> drain (p\<lparr>state := INVALID\<rparr>) = (toyield p, p\<lparr>state := INVALID, toyield := []\<rparr>)"
proof -
  from reachable_inv [OF assms(1)] assms(2) have "\<not> open_value p" by blast
  then have st: "state p = OUTSIDE \<or> state p = INVALID"
    by (cases "state p") (auto simp: open_value_def)
  have a: "feed_char (ch CHR '']'') p =
           (Raised (RuntimeError (if state p = INVALID then Invalid_parser_state else Stack_is_empty)),
            p\<lparr>state := INVALID\<rparr>)"
    using st assms(2)
    by (auto simp: feed_char_def feed_char_outside_def handle_brackets_def ords_def)
  show ?thesis using a invalid_absorbs [of "p\<lparr>state := INVALID\<rparr>" cs]
    by (simp add: drain_eq)
qed

theorem close_bracket_on_empty_stack_witness:
  \<open>reachable \<lparr>state = OUTSIDE, stack = [],
      toyield = [Value (ords ''0'') (PyInt 1), Value (ords ''0'') (PyInt 2)],
      payload = [], payload_string_parser = None, started = True\<rparr>
   \<and> feed_char (ch CHR '']'')
       \<lparr>state = OUTSIDE, stack = [],
        toyield = [Value (ords ''0'') (PyInt 1), Value (ords ''0'') (PyInt 2)],
        payload = [], payload_string_parser = None, started = True\<rparr> =
      (Raised (RuntimeError Stack_is_empty),
       \<lparr>state = INVALID, stack = [],
        toyield = [Value (ords ''0'') (PyInt 1), Value (ords ''0'') (PyInt 2)],
        payload = [], payload_string_parser = None, started = True\<rparr>)
   \<and> feed_chars_caught (ords ''],3'')
       \<lparr>state = INVALID, stack = [],
        toyield = [Value (ords ''0'') (PyInt 1), Value (ords ''0'') (PyInt 2)],
        payload = [], payload_string_parser = None, started = True\<rparr> =
      ([Raised (RuntimeError Invalid_parser_state), Raised (RuntimeError Invalid_parser_state),
        Raised (RuntimeError Invalid_parser_state)],
       \<lparr>state = INVALID, stack = [],
        toyield = [Value (ords ''0'') (PyInt 1), Value (ords ''0'') (PyInt 2)],
        payload = [], payload_string_parser = None, started = True\<rparr>)
   \<and> drain
       \<lparr>state = INVALID, stack = [],
        toyield = [Value (ords ''0'') (PyInt 1), Value (ords ''0'') (PyInt 2)],
        payload = [], payload_string_parser = None, started = True\<rparr> =
      ([Value (ords ''0'') (PyInt 1), Value (ords ''0'') (PyInt 2)],
       \<lparr>state = INVALID, stack = [], toyield = [],
        payload = [], payload_string_parser = None, started = True\<rparr>)\<close>
proof -
  have r: \<open>reachable \<lparr>state = OUTSIDE, stack = [],
      toyield = [Value (ords ''0'') (PyInt 1), Value (ords ''0'') (PyInt 2)],
      payload = [], payload_string_parser = None, started = True\<rparr>\<close>
    using reachable_feed_string [OF reachable_init, of "ords ''[1,2]''"]
    by (simp add: two_numbers_fed)
  show ?thesis
    using r close_bracket_on_empty_stack [OF r, of "ords ''],3''"]
    by (simp add: ords_def)
qed

end
